theory Spec2Isabelle
  imports Complex_Main "HOL-Library.Sublist"
begin

section \<open>Data model of the guard bot (cn.py)\<close>

text \<open>
  Account, guild, channel, message and webhook identifiers are Python integers.
  A \<^verbatim>\<open>datetime\<close> is a number of microseconds since the epoch, a
  \<^verbatim>\<open>timedelta\<close> a number of microseconds (the resolution of both types).
\<close>

type_synonym account_id = int
type_synonym timestamp = int
type_synonym timedelta = int

text \<open>
  The exception classes the handlers of the source name. In the platform library
  \<^verbatim>\<open>Forbidden\<close> and \<^verbatim>\<open>NotFound\<close> are subclasses of
  \<^verbatim>\<open>HTTPException\<close>; the constructor \<open>HTTPException\<close> stands for every other
  failed request (server errors, rate limits).
\<close>

datatype exn = Forbidden | NotFound | HTTPException

fun is_HTTPException :: "exn \<Rightarrow> bool" where
  "is_HTTPException Forbidden = True"
| "is_HTTPException NotFound = True"
| "is_HTTPException HTTPException = True"

datatype AuditLogAction = bot_add | channel_delete | role_delete | ban | kick | webhook_create

text \<open>
  What a handler does to the outside world, in the order it does it: the requests it sends
  to the platform, its reads of the guild's member cache (with the answer), and its sleeps.
  \<open>AuditLogs g limit action t\<close> is the audit query for guild \<open>g\<close>, sent at time \<open>t\<close>.
\<close>

datatype call =
    MessageDelete int
  | GetMember int account_id bool
  | MemberEdit account_id timestamp string
  | GuildKick int account_id string
  | AuditLogs int nat AuditLogAction timestamp
  | ChannelWebhooks
  | WebhookDelete int string
  | Sleep nat

fun is_enforcement :: "call \<Rightarrow> bool" where
  "is_enforcement (MessageDelete _) = True"
| "is_enforcement (MemberEdit _ _ _) = True"
| "is_enforcement (GuildKick _ _ _) = True"
| "is_enforcement (WebhookDelete _ _) = True"
| "is_enforcement _ = False"

fun is_penalty :: "call \<Rightarrow> bool" where
  "is_penalty (MemberEdit _ _ _) = True"
| "is_penalty (GuildKick _ _ _) = True"
| "is_penalty _ = False"

text \<open>The three module-level dictionaries.\<close>

record state =
  invite_events :: "account_id \<rightharpoonup> timestamp list"
  webhook_attempts :: "account_id \<rightharpoonup> int"
  last_audit_lookup :: "(int \<times> AuditLogAction \<times> int option) \<rightharpoonup> timestamp"

definition init_state :: state where
  "init_state = \<lparr>invite_events = Map.empty, webhook_attempts = Map.empty,
                 last_audit_lookup = Map.empty\<rparr>"

record message =
  msg_id :: int
  author_id :: account_id
  author_bot :: bool
  guild :: "int option"
  content :: string

record audit_entry =
  created_at :: "timestamp option"
  user :: "account_id option"
  target :: "int option"

subsection \<open>Configuration\<close>

definition WHITELIST_IDS :: "account_id set" where
  "WHITELIST_IDS = {662596869221908480, 843180408152784936,
                    1271186898408308789, 1197862712408014909,
                    557628352828014614, 651095740390834176,
                    235148962103951360}"

definition INVITE_WINDOW_SECONDS :: int where
  "INVITE_WINDOW_SECONDS = 15"

definition INVITE_MAX_IN_WINDOW :: int where
  "INVITE_MAX_IN_WINDOW = 5"

definition hours :: "int \<Rightarrow> timedelta" where
  "hours h = h * 3600 * 1000000"

definition seconds :: "int \<Rightarrow> timedelta" where
  "seconds n = n * 1000000"

definition TIMEOUT_DURATION :: timedelta where
  "TIMEOUT_DURATION = hours 1"

definition WEBHOOK_MAX_ATTEMPTS :: int where
  "WEBHOOK_MAX_ATTEMPTS = 3"

text \<open>
  \<^verbatim>\<open>timedelta.total_seconds()\<close>: the microseconds divided by \<open>10^6\<close>. Python
  rounds the quotient to a double; the quotient of a whole number of microseconds is never
  close enough to a whole number of seconds for the rounding to change a comparison of the
  source (with 1, 15, 20 and 30), so the exact quotient is used.
\<close>

definition total_seconds :: "timedelta \<Rightarrow> rat" where
  "total_seconds d = of_int d / 1000000"

subsection \<open>The invite pattern\<close>

text \<open>
  \<^verbatim>\<open>(?:https?://)?(?:www\.)?(?:discord\.gg|discord\.com/invite)/[A-Za-z0-9\-]+\<close>,
  compiled with \<^verbatim>\<open>re.IGNORECASE\<close>, over ASCII text. \<open>rmatch r s\<close> lists what
  is left of \<open>s\<close> after each way of matching \<open>r\<close> at its start.
\<close>

datatype regex =
    Lit string
  | Seq regex regex
  | Alt regex regex
  | Opt regex
  | PlusClass "char \<Rightarrow> bool"

definition to_lower :: "char \<Rightarrow> char" where
  "to_lower c = (let n = (of_char c :: nat) in if 65 \<le> n \<and> n \<le> 90 then char_of (n + 32) else c)"

fun match_lit :: "string \<Rightarrow> string \<Rightarrow> string option" where
  "match_lit [] s = Some s"
| "match_lit (c # cs) [] = None"
| "match_lit (c # cs) (d # ds) = (if to_lower c = to_lower d then match_lit cs ds else None)"

fun rmatch :: "regex \<Rightarrow> string \<Rightarrow> string list" where
  "rmatch (Lit l) s = (case match_lit l s of None \<Rightarrow> [] | Some r \<Rightarrow> [r])"
| "rmatch (Seq a b) s = concat (map (rmatch b) (rmatch a s))"
| "rmatch (Alt a b) s = rmatch a s @ rmatch b s"
| "rmatch (Opt a) s = rmatch a s @ [s]"
| "rmatch (PlusClass P) s =
     map (\<lambda>i. drop i s) (rev [1 ..< Suc (length (takeWhile P s))])"

definition search :: "regex \<Rightarrow> string \<Rightarrow> bool" where
  "search r s = list_ex (\<lambda>i. rmatch r (drop i s) \<noteq> []) [0 ..< Suc (length s)]"

definition invite_class :: "char \<Rightarrow> bool" where
  "invite_class c = (let n = (of_char (to_lower c) :: nat) in
     (97 \<le> n \<and> n \<le> 122) \<or> (48 \<le> n \<and> n \<le> 57) \<or> n = 45)"

definition INVITE_REGEX :: regex where
  "INVITE_REGEX =
     Seq (Opt (Seq (Lit ''http'') (Seq (Opt (Lit ''s'')) (Lit ''://''))))
    (Seq (Opt (Lit ''www.''))
    (Seq (Alt (Lit ''discord.gg'') (Lit ''discord.com/invite''))
    (Seq (Lit ''/'') (PlusClass invite_class))))"

section \<open>Utilities\<close>

definition is_whitelisted :: "account_id \<Rightarrow> bool" where
  "is_whitelisted user_id = (user_id \<in> WHITELIST_IDS)"

text \<open>
  \<open>safe_kick\<close>: \<open>still_member\<close> is the answer of \<^verbatim>\<open>guild.get_member(member.id)\<close>,
  \<open>kick_result\<close> the outcome of \<^verbatim>\<open>guild.kick\<close> (\<open>None\<close>: the request succeeded).
  The result is the calls made and the exception that leaves the function, if any.
  A \<^verbatim>\<open>Member\<close> object is always truthy, so the first conjunct of the source's test
  is true at every call.
\<close>

record kick_env =
  still_member :: bool
  kick_result :: "exn option"

definition safe_kick :: "int \<Rightarrow> account_id \<Rightarrow> string \<Rightarrow> kick_env \<Rightarrow> call list \<times> exn option" where
  "safe_kick g member reason env =
     (if still_member env then
        (case kick_result env of
           None \<Rightarrow> ([GetMember g member True, GuildKick g member reason], None)
         | Some e \<Rightarrow>
             if e = Forbidden then ([GetMember g member True, GuildKick g member reason], None)
             else if is_HTTPException e then
               ([GetMember g member True, GuildKick g member reason], None)
             else ([GetMember g member True, GuildKick g member reason], Some e))
      else ([GetMember g member False], None))"

text \<open>
  \<open>try_timeout\<close>: \<open>utcnow\<close> is the clock read by \<^verbatim>\<open>discord.utils.utcnow()\<close>,
  \<open>edit_result\<close> the outcome of \<^verbatim>\<open>member.edit\<close>.
\<close>

definition try_timeout ::
  "account_id \<Rightarrow> timedelta \<Rightarrow> string \<Rightarrow> timestamp \<Rightarrow> exn option \<Rightarrow> call list \<times> (exn + bool)" where
  "try_timeout member duration reason utcnow edit_result =
     (let until = utcnow + duration in
      case edit_result of
        None \<Rightarrow> ([MemberEdit member until reason], Inr True)
      | Some e \<Rightarrow>
          if e = Forbidden then ([MemberEdit member until reason], Inr False)
          else if is_HTTPException e then ([MemberEdit member until reason], Inr False)
          else ([MemberEdit member until reason], Inl e))"

section \<open>The message handler\<close>

text \<open>\<^verbatim>\<open>deque(maxlen=50).append\<close>: a full deque drops its oldest entry.\<close>

definition dq_append :: "timestamp list \<Rightarrow> timestamp \<Rightarrow> timestamp list" where
  "dq_append dq x = (let d = dq @ [x] in drop (length d - 50) d)"

text \<open>The loop that cleans the window (lines 164--165).\<close>

fun purge :: "timestamp \<Rightarrow> timestamp list \<Rightarrow> timestamp list" where
  "purge now [] = []"
| "purge now (t # ts) =
     (if total_seconds (now - t) > of_int INVITE_WINDOW_SECONDS then purge now ts else t # ts)"

fun digit_char :: "nat \<Rightarrow> char" where
  "digit_char n = char_of (48 + n)"

fun str_nat :: "nat \<Rightarrow> string" where
  "str_nat n = (if n < 10 then [digit_char n] else str_nat (n div 10) @ [digit_char (n mod 10)])"

text \<open>
  The reason string of line 170, as UTF-8 bytes; \<open>0xE2 0x89 0xA5\<close> is the sign
  "greater than or equal to" of the source.
\<close>

definition invite_reason :: string where
  "invite_reason = ''Invite-Spam: '' @ [CHR 0xE2, CHR 0x89, CHR 0xA5]
       @ str_nat (nat INVITE_MAX_IN_WINDOW) @ '' in ''
       @ str_nat (nat INVITE_WINDOW_SECONDS) @ ''s''"

text \<open>
  What the outside world answers during one run of \<open>on_message\<close>:
  the outcome of \<^verbatim>\<open>message.delete()\<close>, the clock of line 159, the member cache at
  line 168, the clock and the outcome of \<open>try_timeout\<close>, and the answers inside
  \<open>safe_kick\<close>.
\<close>

record msg_env =
  delete_result :: "exn option"
  now :: timestamp
  member_cached :: bool
  utcnow :: timestamp
  edit_result :: "exn option"
  m_kick :: kick_env

text \<open>Lines 149--155: the deletion and its handlers; the exception that escapes them.\<close>

definition delete_invite :: "message \<Rightarrow> exn option \<Rightarrow> call list \<times> exn option" where
  "delete_invite m r =
     (case r of
        None \<Rightarrow> ([MessageDelete (msg_id m)], None)
      | Some e \<Rightarrow>
          if e = Forbidden \<or> e = NotFound then ([MessageDelete (msg_id m)], None)
          else if is_HTTPException e then ([MessageDelete (msg_id m)], None)
          else ([MessageDelete (msg_id m)], Some e))"

text \<open>Lines 168--173: the enforcement once the threshold is reached.\<close>

definition enforce_invite_spam :: "int \<Rightarrow> account_id \<Rightarrow> msg_env \<Rightarrow> call list \<times> exn option" where
  "enforce_invite_spam g a env =
     (if member_cached env then
        (case try_timeout a TIMEOUT_DURATION invite_reason (utcnow env) (edit_result env) of
           (c1, Inl e) \<Rightarrow> (GetMember g a True # c1, Some e)
         | (c1, Inr ok) \<Rightarrow>
             if \<not> ok then
               (case safe_kick g a invite_reason (m_kick env) of
                  (c2, r) \<Rightarrow> (GetMember g a True # c1 @ c2, r))
             else (GetMember g a True # c1, None))
      else ([GetMember g a False], None))"

text \<open>Lines 159--165: the window of the author after this post.\<close>

definition record_post :: "state \<Rightarrow> account_id \<Rightarrow> timestamp \<Rightarrow> timestamp list" where
  "record_post s a t =
     (let dq = (case invite_events s a of None \<Rightarrow> [] | Some d \<Rightarrow> d) in
      purge t (dq_append dq t))"

definition on_message :: "state \<Rightarrow> message \<Rightarrow> msg_env \<Rightarrow> state \<times> call list \<times> exn option" where
  "on_message s m env =
     (if author_bot m \<or> guild m = None then (s, [], None)
      else if search INVITE_REGEX (content m) then
        (case delete_invite m (delete_result env) of
           (c0, Some e) \<Rightarrow> (s, c0, Some e)
         | (c0, None) \<Rightarrow>
             if \<not> is_whitelisted (author_id m) then
               (let dq = record_post s (author_id m) (now env);
                    s' = s\<lparr>invite_events := (invite_events s)(author_id m \<mapsto> dq)\<rparr>
                in if int (length dq) \<ge> INVITE_MAX_IN_WINDOW then
                     (case enforce_invite_spam (the (guild m)) (author_id m) env of
                        (c1, r) \<Rightarrow> (s', c0 @ c1, r))
                   else (s', c0, None))
             else (s, c0, None))
      else (s, [], None))"

section \<open>Audit attribution\<close>

text \<open>
  What the outside world answers during one run of \<open>find_audit_actor\<close>: the clock
  of line 111 and the outcome of \<^verbatim>\<open>guild.audit_logs(limit=8, action=action)\<close>,
  an exception or the records, newest first.
\<close>

record audit_env =
  audit_now :: timestamp
  audit_response :: "exn + audit_entry list"

text \<open>The loop of lines 117--126 over the records the directory returned.\<close>

fun scan_entries :: "timestamp \<Rightarrow> int option \<Rightarrow> int \<Rightarrow> audit_entry list \<Rightarrow> account_id option" where
  "scan_entries t target_id within_seconds [] = None"
| "scan_entries t target_id within_seconds (entry # es) =
     (if (case created_at entry of None \<Rightarrow> False
          | Some c \<Rightarrow> total_seconds (t - c) > of_int within_seconds)
      then scan_entries t target_id within_seconds es
      else if target_id \<noteq> None \<and> target entry \<noteq> target_id
      then scan_entries t target_id within_seconds es
      else user entry)"

text \<open>
  Lines 110--114. The key of the source is the pair of the guild id and the text
  \<^verbatim>\<open>f"{action}:{target_id}"\<close>, which determines the action and the target; the
  model keeps the three components. \<open>throttled\<close> is the test of line 112.
\<close>

definition throttled :: "state \<Rightarrow> int \<times> AuditLogAction \<times> int option \<Rightarrow> timestamp \<Rightarrow> bool" where
  "throttled s key t =
     (case last_audit_lookup s key of None \<Rightarrow> False | Some l \<Rightarrow> total_seconds (t - l) < 1)"

text \<open>
  The audit query leaves at the clock of line 111, or one second later when line 113
  slept (a sleep of exactly one second, and no time spent elsewhere).
\<close>

definition find_audit_actor ::
  "state \<Rightarrow> int \<Rightarrow> AuditLogAction \<Rightarrow> int option \<Rightarrow> int \<Rightarrow> audit_env
     \<Rightarrow> state \<times> call list \<times> (exn + account_id option)" where
  "find_audit_actor s g action target_id within_seconds env =
     (let key = (g, action, target_id);
          t = audit_now env;
          c0 = (if throttled s key t then [Sleep 1, AuditLogs g 8 action (t + seconds 1)]
                else [AuditLogs g 8 action t]);
          s' = s\<lparr>last_audit_lookup := (last_audit_lookup s)(key \<mapsto> t)\<rparr>
      in case audit_response env of
           Inl e \<Rightarrow>
             if e = Forbidden then (s', c0, Inr None)
             else if is_HTTPException e then (s', c0, Inr None)
             else (s', c0, Inl e)
         | Inr es \<Rightarrow> (s', c0, Inr (scan_entries t target_id within_seconds es)))"

section \<open>The handlers of administrative events\<close>

record join_env =
  j_audit :: audit_env
  j_bot_kick :: kick_env
  j_inviter_cached :: bool
  j_inviter_kick :: kick_env

definition on_member_join ::
  "state \<Rightarrow> int \<Rightarrow> account_id \<Rightarrow> bool \<Rightarrow> join_env \<Rightarrow> state \<times> call list \<times> exn option" where
  "on_member_join s g member member_bot env =
     (if member_bot then
        (case find_audit_actor s g bot_add (Some member) 20 (j_audit env) of
           (s', c, Inl e) \<Rightarrow> (s', Sleep 1 # c, Some e)
         | (s', c, Inr None) \<Rightarrow> (s', Sleep 1 # c, None)
         | (s', c, Inr (Some actor)) \<Rightarrow>
             if \<not> is_whitelisted actor then
               (case safe_kick g member ''Nicht-whitelisteter Bot-Invite'' (j_bot_kick env) of
                  (c1, Some e) \<Rightarrow> (s', Sleep 1 # c @ c1, Some e)
                | (c1, None) \<Rightarrow>
                    if j_inviter_cached env then
                      (case safe_kick g actor ''Bot-Invite ohne Whitelist'' (j_inviter_kick env) of
                         (c2, r) \<Rightarrow> (s', Sleep 1 # c @ c1 @ GetMember g actor True # c2, r))
                    else (s', Sleep 1 # c @ c1 @ [GetMember g actor False], None))
             else (s', Sleep 1 # c, None))
      else (s, [], None))"

record actor_env =
  a_audit :: audit_env
  a_cached :: bool
  a_kick :: kick_env

text \<open>
  The body shared by \<open>on_guild_channel_delete\<close>, \<open>on_guild_role_delete\<close>,
  \<open>on_member_ban\<close> and \<open>on_member_remove\<close>, which differ in the action kind and in the
  reason text only.
\<close>

definition kick_actor ::
  "state \<Rightarrow> int \<Rightarrow> AuditLogAction \<Rightarrow> int \<Rightarrow> string \<Rightarrow> actor_env
     \<Rightarrow> state \<times> call list \<times> exn option" where
  "kick_actor s g action target_id reason env =
     (case find_audit_actor s g action (Some target_id) 20 (a_audit env) of
        (s', c, Inl e) \<Rightarrow> (s', Sleep 1 # c, Some e)
      | (s', c, Inr None) \<Rightarrow> (s', Sleep 1 # c, None)
      | (s', c, Inr (Some actor)) \<Rightarrow>
          if \<not> is_whitelisted actor then
            (if a_cached env then
               (case safe_kick g actor reason (a_kick env) of
                  (c1, r) \<Rightarrow> (s', Sleep 1 # c @ GetMember g actor True # c1, r))
             else (s', Sleep 1 # c @ [GetMember g actor False], None))
          else (s', Sleep 1 # c, None))"

definition on_guild_channel_delete ::
  "state \<Rightarrow> int \<Rightarrow> int \<Rightarrow> actor_env \<Rightarrow> state \<times> call list \<times> exn option" where
  "on_guild_channel_delete s g channel_id env =
     kick_actor s g channel_delete channel_id
       (''Kanal gel'' @ [CHR 0xC3, CHR 0xB6] @ ''scht ohne Whitelist'') env"

definition on_guild_role_delete ::
  "state \<Rightarrow> int \<Rightarrow> int \<Rightarrow> actor_env \<Rightarrow> state \<times> call list \<times> exn option" where
  "on_guild_role_delete s g role_id env =
     kick_actor s g role_delete role_id
       (''Rolle gel'' @ [CHR 0xC3, CHR 0xB6] @ ''scht ohne Whitelist'') env"

definition on_member_ban ::
  "state \<Rightarrow> int \<Rightarrow> account_id \<Rightarrow> actor_env \<Rightarrow> state \<times> call list \<times> exn option" where
  "on_member_ban s g user_id env = kick_actor s g ban user_id ''Ban ohne Whitelist'' env"

definition on_member_remove ::
  "state \<Rightarrow> int \<Rightarrow> account_id \<Rightarrow> actor_env \<Rightarrow> state \<times> call list \<times> exn option" where
  "on_member_remove s g member env = kick_actor s g kick member ''Kick ohne Whitelist'' env"

section \<open>The webhook handler\<close>

text \<open>
  What the outside world answers while one audit record is handled: the clock of line 245,
  the webhooks of the channel of the event, the webhooks of each text channel of the guild
  in turn (webhooks by their ids), the outcome of \<^verbatim>\<open>wh.delete\<close>, the member cache
  at line 285 and the answers inside \<open>safe_kick\<close>.
\<close>

record wh_env =
  wh_now :: timestamp
  channel_hooks :: "exn + int list"
  guild_hooks :: "(exn + int list) list"
  wh_delete_result :: "exn option"
  wh_member_cached :: bool
  wh_kick :: kick_env

text \<open>
  Lines 264--273: the search through the text channels. A \<open>Forbidden\<close> channel is skipped,
  any other exception leaves the loop. The result counts the channels asked.
\<close>

fun guild_search :: "int \<Rightarrow> (exn + int list) list \<Rightarrow> nat \<times> (exn + int option)" where
  "guild_search tid [] = (0, Inr None)"
| "guild_search tid (r # rs) =
     (case r of
        Inl e \<Rightarrow>
          if e = Forbidden then (case guild_search tid rs of (n, x) \<Rightarrow> (Suc n, x))
          else (1, Inl e)
      | Inr hooks \<Rightarrow>
          (case find (\<lambda>w. w = tid) hooks of
             Some w \<Rightarrow> (1, Inr (Some w))
           | None \<Rightarrow> (case guild_search tid rs of (n, x) \<Rightarrow> (Suc n, x))))"

text \<open>Lines 277--280: the handlers around the search and the deletion.\<close>

definition webhook_handlers :: "exn \<Rightarrow> exn option" where
  "webhook_handlers e =
     (if e = Forbidden then None else if is_HTTPException e then None else Some e)"

definition wh_delete :: "int \<Rightarrow> wh_env \<Rightarrow> call list \<times> exn option" where
  "wh_delete w env =
     (case wh_delete_result env of
        None \<Rightarrow> ([WebhookDelete w ''Webhook von nicht-whitelistetem Nutzer''], None)
      | Some e \<Rightarrow>
          ([WebhookDelete w ''Webhook von nicht-whitelistetem Nutzer''], webhook_handlers e))"

text \<open>Lines 258--280: find the webhook of the record and delete it.\<close>

definition delete_webhook :: "int \<Rightarrow> wh_env \<Rightarrow> call list \<times> exn option" where
  "delete_webhook tid env =
     (case channel_hooks env of
        Inl e \<Rightarrow> ([ChannelWebhooks], webhook_handlers e)
      | Inr hooks \<Rightarrow>
          (case find (\<lambda>w. w = tid) hooks of
             Some w \<Rightarrow> (case wh_delete w env of (c, r) \<Rightarrow> (ChannelWebhooks # c, r))
           | None \<Rightarrow>
               (case guild_search tid (guild_hooks env) of
                  (n, Inl e) \<Rightarrow> (ChannelWebhooks # replicate n ChannelWebhooks, webhook_handlers e)
                | (n, Inr None) \<Rightarrow> (ChannelWebhooks # replicate n ChannelWebhooks, None)
                | (n, Inr (Some w)) \<Rightarrow>
                    (case wh_delete w env of
                       (c, r) \<Rightarrow> (ChannelWebhooks # replicate n ChannelWebhooks @ c, r)))))"

definition get_attempts :: "state \<Rightarrow> account_id \<Rightarrow> int" where
  "get_attempts s a = (case webhook_attempts s a of None \<Rightarrow> 0 | Some c \<Rightarrow> c)"

definition set_attempts :: "state \<Rightarrow> account_id \<Rightarrow> int \<Rightarrow> state" where
  "set_attempts s a c = s\<lparr>webhook_attempts := (webhook_attempts s)(a \<mapsto> c)\<rparr>"

definition webhook_kick_reason :: string where
  "webhook_kick_reason =
     ''Mehrfach unzul'' @ [CHR 0xC3, CHR 0xA4] @ ''ssige Webhook-Erstellung''"

text \<open>Lines 283--289: count the attempt, kick at the threshold, reset the counter.\<close>

definition count_violation ::
  "state \<Rightarrow> int \<Rightarrow> account_id \<Rightarrow> wh_env \<Rightarrow> state \<times> call list \<times> exn option" where
  "count_violation s g actor env =
     (let s1 = set_attempts s actor (get_attempts s actor + 1) in
      if get_attempts s1 actor \<ge> WEBHOOK_MAX_ATTEMPTS then
        (if wh_member_cached env then
           (case safe_kick g actor webhook_kick_reason (wh_kick env) of
              (c, Some e) \<Rightarrow> (s1, GetMember g actor True # c, Some e)
            | (c, None) \<Rightarrow> (set_attempts s1 actor 0, GetMember g actor True # c, None))
         else (set_attempts s1 actor 0, [GetMember g actor False], None))
      else (s1, [], None))"

text \<open>Lines 244--289: the body of the loop, for one audit record.\<close>

definition webhook_entry ::
  "state \<Rightarrow> int \<Rightarrow> audit_entry \<Rightarrow> wh_env \<Rightarrow> state \<times> call list \<times> exn option" where
  "webhook_entry s g entry env =
     (if (case created_at entry of None \<Rightarrow> False
          | Some c \<Rightarrow> total_seconds (wh_now env - c) > 30)
      then (s, [], None)
      else
        (case (user entry, target entry) of
           (Some actor, Some tid) \<Rightarrow>
             if is_whitelisted actor then (s, [], None)
             else
               (case delete_webhook tid env of
                  (c1, Some e) \<Rightarrow> (s, c1, Some e)
                | (c1, None) \<Rightarrow>
                    (case count_violation s g actor env of
                       (s', c2, r) \<Rightarrow> (s', c1 @ c2, r)))
         | _ \<Rightarrow> (s, [], None)))"

fun webhook_loop ::
  "state \<Rightarrow> int \<Rightarrow> (audit_entry \<times> wh_env) list \<Rightarrow> state \<times> call list \<times> exn option" where
  "webhook_loop s g [] = (s, [], None)"
| "webhook_loop s g ((entry, env) # rest) =
     (case webhook_entry s g entry env of
        (s', c, Some e) \<Rightarrow> (s', c, Some e)
      | (s', c, None) \<Rightarrow>
          (case webhook_loop s' g rest of (s'', c', r) \<Rightarrow> (s'', c @ c', r)))"

text \<open>
  \<open>on_webhooks_update\<close>: \<open>t\<close> is the time at which the audit query of line 243 leaves,
  \<open>response\<close> its outcome, each record with the answers of the outside world while it is
  handled. Lines 291--294 are the handlers around the loop.
\<close>

definition on_webhooks_update ::
  "state \<Rightarrow> int \<Rightarrow> timestamp \<Rightarrow> exn + (audit_entry \<times> wh_env) list
     \<Rightarrow> state \<times> call list \<times> exn option" where
  "on_webhooks_update s g t response =
     (case response of
        Inl e \<Rightarrow> (s, [Sleep 1, AuditLogs g 6 webhook_create t], webhook_handlers e)
      | Inr entries \<Rightarrow>
          (case webhook_loop s g entries of
             (s', c, None) \<Rightarrow> (s', Sleep 1 # AuditLogs g 6 webhook_create t # c, None)
           | (s', c, Some e) \<Rightarrow>
               (s', Sleep 1 # AuditLogs g 6 webhook_create t # c, webhook_handlers e)))"

section \<open>Runs and the vocabulary of the properties\<close>

text \<open>The state after a sequence of messages, each with the answers of the outside world.\<close>

fun run_messages :: "state \<Rightarrow> (message \<times> msg_env) list \<Rightarrow> state" where
  "run_messages s [] = s"
| "run_messages s ((m, env) # rest) = run_messages (fst (on_message s m env)) rest"

text \<open>A message of account \<open>a\<close> that the handler treats as an invite post.\<close>

definition invite_post :: "account_id \<Rightarrow> message \<Rightarrow> bool" where
  "invite_post a m \<longleftrightarrow>
     author_id m = a \<and> \<not> author_bot m \<and> guild m \<noteq> None \<and> search INVITE_REGEX (content m)"

definition window :: "state \<Rightarrow> account_id \<Rightarrow> timestamp list" where
  "window s a = (case invite_events s a of None \<Rightarrow> [] | Some d \<Rightarrow> d)"

text \<open>Successive timestamps at least 15 seconds apart.\<close>

fun spaced :: "timestamp list \<Rightarrow> bool" where
  "spaced [] = True"
| "spaced [x] = True"
| "spaced (x # y # r) = (y - x \<ge> seconds 15 \<and> spaced (y # r))"

text \<open>
  Every kick and every timeout in a list of calls comes directly after a read of the member
  cache that found the same account; \<open>p\<close> is the call before the list.
\<close>

definition found_member :: "account_id \<Rightarrow> call option \<Rightarrow> bool" where
  "found_member a p = (case p of Some (GetMember _ a' b) \<Rightarrow> a' = a \<and> b | _ \<Rightarrow> False)"

fun checked_from :: "call option \<Rightarrow> call list \<Rightarrow> bool" where
  "checked_from p [] = True"
| "checked_from p (c # cs) =
     ((case c of
         GuildKick _ a _ \<Rightarrow> found_member a p
       | MemberEdit a _ _ \<Rightarrow> found_member a p
       | _ \<Rightarrow> True) \<and> checked_from (Some c) cs)"

definition membership_checked :: "call list \<Rightarrow> bool" where
  "membership_checked cs = checked_from None cs"

text \<open>Lines 161--165 on the deque itself: append, then clean from the front.\<close>

definition window_step :: "timestamp list \<Rightarrow> timestamp \<Rightarrow> timestamp list" where
  "window_step w t = purge t (dq_append w t)"

text \<open>The test of line 167, on the window the state holds for the account.\<close>

definition is_over_threshold :: "state \<Rightarrow> account_id \<Rightarrow> bool" where
  "is_over_threshold s a \<longleftrightarrow> int (length (window s a)) \<ge> INVITE_MAX_IN_WINDOW"

text \<open>The test of line 284.\<close>

definition should_kick :: "int \<Rightarrow> bool" where
  "should_kick c \<longleftrightarrow> c \<ge> WEBHOOK_MAX_ATTEMPTS"

text \<open>
  A record is stale when it has a creation time and its age is above the bound, in
  seconds; it fits the target when no target is asked for or its target is the one asked.
\<close>

definition is_stale :: "timestamp \<Rightarrow> int \<Rightarrow> audit_entry \<Rightarrow> bool" where
  "is_stale t within_seconds entry =
     (case created_at entry of None \<Rightarrow> False | Some c \<Rightarrow> t - c > seconds within_seconds)"

definition fits_target :: "int option \<Rightarrow> audit_entry \<Rightarrow> bool" where
  "fits_target target_id entry \<longleftrightarrow> target_id = None \<or> target entry = target_id"

text \<open>
  The actor \<open>find_audit_actor\<close> returns for the default bound of 20 seconds, as a
  function of the answer of the audit directory.
\<close>

definition attributed :: "int option \<Rightarrow> audit_env \<Rightarrow> account_id option" where
  "attributed tid env =
     (case audit_response env of Inl e \<Rightarrow> None
      | Inr es \<Rightarrow> scan_entries (audit_now env) tid 20 es)"

text \<open>The state after consecutive runs of lines 283--289 for one account.\<close>

definition violations :: "state \<Rightarrow> int \<Rightarrow> account_id \<Rightarrow> wh_env list \<Rightarrow> state" where
  "violations s g a envs = foldl (\<lambda>s' env. fst (count_violation s' g a env)) s envs"

subsection \<open>Sample inputs\<close>

definition trusted_id :: account_id where
  "trusted_id = 662596869221908480"

definition stale_entry :: audit_entry where
  "stale_entry = \<lparr>created_at = Some 0, user = Some 99, target = Some 5\<rparr>"

definition fresh_entry :: audit_entry where
  "fresh_entry = \<lparr>created_at = Some (seconds 10), user = Some 42, target = Some 5\<rparr>"

definition trusted_entry :: audit_entry where
  "trusted_entry = \<lparr>created_at = Some (seconds 24), user = Some trusted_id, target = Some 5\<rparr>"

definition sample_kick_env :: kick_env where
  "sample_kick_env = \<lparr>still_member = True, kick_result = None\<rparr>"

definition untrusted_actor_env :: actor_env where
  "untrusted_actor_env =
     \<lparr>a_audit = \<lparr>audit_now = seconds 25, audit_response = Inr [stale_entry, fresh_entry]\<rparr>,
      a_cached = True, a_kick = sample_kick_env\<rparr>"

definition trusted_actor_env :: actor_env where
  "trusted_actor_env =
     \<lparr>a_audit = \<lparr>audit_now = seconds 25, audit_response = Inr [trusted_entry]\<rparr>,
      a_cached = True, a_kick = sample_kick_env\<rparr>"

definition trusted_join_env :: join_env where
  "trusted_join_env =
     \<lparr>j_audit = \<lparr>audit_now = seconds 25, audit_response = Inr [trusted_entry]\<rparr>,
      j_bot_kick = sample_kick_env, j_inviter_cached = True, j_inviter_kick = sample_kick_env\<rparr>"

text \<open>The webhook of the record is in no channel the bot may list.\<close>

definition lost_hook_env :: wh_env where
  "lost_hook_env =
     \<lparr>wh_now = seconds 25, channel_hooks = Inr [], guild_hooks = [Inl Forbidden, Inr [3]],
      wh_delete_result = None, wh_member_cached = True, wh_kick = sample_kick_env\<rparr>"

text \<open>The webhook of the record is found and its deletion fails.\<close>

definition failed_delete_env :: wh_env where
  "failed_delete_env =
     \<lparr>wh_now = seconds 25, channel_hooks = Inr [5], guild_hooks = [],
      wh_delete_result = Some HTTPException, wh_member_cached = True,
      wh_kick = sample_kick_env\<rparr>"

definition sample_post :: "account_id \<Rightarrow> int \<Rightarrow> message" where
  "sample_post a i =
     \<lparr>msg_id = i, author_id = a, author_bot = False, guild = Some 7,
      content = ''join https://discord.gg/abc''\<rparr>"

definition sample_env :: "timestamp \<Rightarrow> msg_env" where
  "sample_env t =
     \<lparr>delete_result = None, now = t, member_cached = True, utcnow = t,
      edit_result = None, m_kick = \<lparr>still_member = True, kick_result = None\<rparr>\<rparr>"

definition failing_env :: msg_env where
  "failing_env =
     \<lparr>delete_result = Some NotFound, now = 0, member_cached = True, utcnow = 0,
      edit_result = Some Forbidden,
      m_kick = \<lparr>still_member = True, kick_result = Some HTTPException\<rparr>\<rparr>"

definition quick_posts :: "(message \<times> msg_env) list" where
  "quick_posts = map (\<lambda>i. (sample_post 42 i, sample_env (seconds (2 * i)))) [0, 1, 2, 3, 4]"

definition slow_posts :: "(message \<times> msg_env) list" where
  "slow_posts = map (\<lambda>i. (sample_post 42 i, sample_env (seconds (15 * i)))) [0, 1, 2, 3, 4, 5]"

section \<open>Properties\<close>

lemma total_seconds_gt_iff: "total_seconds d > of_int n \<longleftrightarrow> d > n * 1000000"
proof -
  have "total_seconds d > of_int n \<longleftrightarrow> (of_int (n * 1000000) :: rat) < of_int d"
    by (simp add: total_seconds_def pos_less_divide_eq)
  then show ?thesis by (simp only: of_int_less_iff)
qed

lemma total_seconds_gt_15: "total_seconds d > 15 \<longleftrightarrow> d > 15000000"
  using total_seconds_gt_iff [of 15 d] by simp

lemma total_seconds_gt_30: "total_seconds d > 30 \<longleftrightarrow> d > 30000000"
  using total_seconds_gt_iff [of 30 d] by simp

lemma total_seconds_lt_1: "total_seconds d < 1 \<longleftrightarrow> d < 1000000"
proof -
  have "total_seconds d < 1 \<longleftrightarrow> (of_int d :: rat) < of_int 1000000"
    by (simp add: total_seconds_def pos_divide_less_eq)
  then show ?thesis by (simp only: of_int_less_iff)
qed

lemma purge_dropWhile: "purge t ts = dropWhile (\<lambda>x. t - x > 15000000) ts"
  by (induction ts) (simp_all add: total_seconds_gt_15 INVITE_WINDOW_SECONDS_def)

lemma delete_invite_eq: "delete_invite m r = ([MessageDelete (msg_id m)], None)"
  by (cases r; cases "the r") (simp_all add: delete_invite_def)

lemma safe_kick_no_exn: "snd (safe_kick g a reason env) = None"
  by (cases "kick_result env"; cases "the (kick_result env)") (simp_all add: safe_kick_def)

lemma safe_kick_calls:
  "fst (safe_kick g a reason env) =
     (if still_member env then [GetMember g a True, GuildKick g a reason] else [GetMember g a False])"
  by (cases "kick_result env"; cases "the (kick_result env)") (simp_all add: safe_kick_def)

lemma try_timeout_eq:
  "try_timeout a d reason u r = ([MemberEdit a (u + d) reason], Inr (r = None))"
  by (cases r; cases "the r") (simp_all add: try_timeout_def)

lemma enforce_invite_spam_eq:
  "enforce_invite_spam g a env =
     (if member_cached env then
        (GetMember g a True # MemberEdit a (utcnow env + TIMEOUT_DURATION) invite_reason #
           (if edit_result env = None then [] else fst (safe_kick g a invite_reason (m_kick env))),
         None)
      else ([GetMember g a False], None))"
proof -
  obtain c r where sk: "safe_kick g a invite_reason (m_kick env) = (c, r)"
    by (cases "safe_kick g a invite_reason (m_kick env)")
  with safe_kick_no_exn [of g a invite_reason "m_kick env"] have r: "r = None" by simp
  show ?thesis by (simp add: enforce_invite_spam_def try_timeout_eq sk r)
qed

lemma on_message_invite_post:
  assumes "invite_post a m" "\<not> is_whitelisted a"
  shows "on_message s m env =
     (s\<lparr>invite_events := (invite_events s)(a \<mapsto> record_post s a (now env))\<rparr>,
      MessageDelete (msg_id m) #
        (if int (length (record_post s a (now env))) \<ge> INVITE_MAX_IN_WINDOW
         then fst (enforce_invite_spam (the (guild m)) a env) else []),
      None)"
  using assms
  by (simp add: on_message_def invite_post_def delete_invite_eq enforce_invite_spam_eq Let_def)

lemma on_message_window:
  assumes "invite_post a m" "\<not> is_whitelisted a"
  shows "window (fst (on_message s m env)) a = window_step (window s a) (now env)"
  by (simp add: on_message_invite_post [OF assms] window_def record_post_def window_step_def)

lemma on_message_other_window:
  "author_id m \<noteq> a \<Longrightarrow> window (fst (on_message s m env)) a = window s a"
  by (simp add: on_message_def delete_invite_eq enforce_invite_spam_eq Let_def window_def)

lemma run_messages_window:
  assumes "\<not> is_whitelisted a"
  shows "\<forall>p\<in>set ms. invite_post a (fst p) \<Longrightarrow>
     window (run_messages s ms) a = foldl window_step (window s a) (map (\<lambda>p. now (snd p)) ms)"
proof (induction ms arbitrary: s)
  case Nil
  then show ?case by simp
next
  case (Cons p ms)
  obtain m env where p: "p = (m, env)" by (cases p)
  from Cons.prems p have ip: "invite_post a m" by simp
  from Cons.prems have rest: "\<forall>p\<in>set ms. invite_post a (fst p)" by simp
  show ?case
    using Cons.IH [OF rest, of "fst (on_message s m env)"] on_message_window [OF ip assms, of s env]
    by (simp add: p)
qed

lemma takeWhile_length_mono:
  "(\<And>x. x \<in> set xs \<Longrightarrow> P x \<Longrightarrow> Q x) \<Longrightarrow>
     length (takeWhile P xs) \<le> length (takeWhile Q (xs @ zs))"
  by (induction xs) auto

lemma sorted_fresh_tail:
  fixes t :: int
  assumes "sorted (x # xs)" "\<not> t - x > k"
  shows "takeWhile (\<lambda>y. t - y > k) xs = []"
proof (cases xs)
  case Nil
  then show ?thesis by simp
next
  case (Cons y ys)
  with assms have "x \<le> y" by simp
  with assms(2) have "\<not> t - y > k" by linarith
  with Cons show ?thesis by simp
qed

lemma dropWhile_drop_sorted:
  fixes t :: int
  shows "sorted ts \<Longrightarrow>
     dropWhile (\<lambda>x. t - x > k) (drop n ts)
       = drop (max n (length (takeWhile (\<lambda>x. t - x > k) ts))) ts"
proof (induction ts arbitrary: n)
  case Nil
  then show ?case by simp
next
  case (Cons x xs)
  from Cons.prems have sx: "sorted xs" by simp
  show ?case
  proof (cases n)
    case 0
    then show ?thesis by (simp add: dropWhile_eq_drop)
  next
    case (Suc n')
    show ?thesis
    proof (cases "t - x > k")
      case True
      then show ?thesis using Cons.IH [OF sx, of n'] Suc by simp
    next
      case False
      have "takeWhile (\<lambda>y. t - y > k) xs = []"
        using sorted_fresh_tail [OF Cons.prems False] .
      then show ?thesis using Cons.IH [OF sx, of n'] Suc False by simp
    qed
  qed
qed

lemma dq_append_drop:
  "m \<le> length ys \<Longrightarrow>
     dq_append (drop m ys) t = drop (max m (length ys + 1 - 50)) (ys @ [t])"
proof -
  assume m: "m \<le> length ys"
  have "dq_append (drop m ys) t = drop (length ys - m + 1 - 50) (drop m (ys @ [t]))"
    using m by (simp add: dq_append_def Let_def)
  also have "\<dots> = drop (length ys - m + 1 - 50 + m) (ys @ [t])"
    by (simp only: drop_drop)
  also have "length ys - m + 1 - 50 + m = max m (length ys + 1 - 50)"
    using m by arith
  finally show ?thesis .
qed

lemma window_fold_sorted:
  "ys \<noteq> [] \<Longrightarrow> sorted ys \<Longrightarrow>
     foldl window_step [] ys
       = drop (max (length ys - 50) (length (takeWhile (\<lambda>x. last ys - x > 15000000) ys))) ys"
proof (induction ys rule: rev_induct)
  case Nil
  then show ?case by simp
next
  case (snoc t ys)
  show ?case
  proof (cases "ys = []")
    case True
    then show ?thesis by (simp add: window_step_def dq_append_def purge_dropWhile)
  next
    case False
    from snoc.prems have sy: "sorted ys" by (simp add: sorted_append)
    from snoc.prems False have le: "last ys \<le> t" by (simp add: sorted_append)
    let ?j = "length (takeWhile (\<lambda>x. last ys - x > 15000000) ys)"
    let ?j' = "length (takeWhile (\<lambda>x. t - x > 15000000) (ys @ [t]))"
    let ?m = "max (length ys - 50) ?j"
    have IH: "foldl window_step [] ys = drop ?m ys" using snoc.IH [OF False sy] .
    have jle: "?j \<le> length ys" by (rule length_takeWhile_le)
    then have mle: "?m \<le> length ys" by simp
    have jj': "?j \<le> ?j'"
      by (rule takeWhile_length_mono) (use le in linarith)
    have "foldl window_step [] (ys @ [t]) = window_step (drop ?m ys) t" by (simp add: IH)
    also have "\<dots> = dropWhile (\<lambda>x. t - x > 15000000)
                       (drop (max ?m (length ys + 1 - 50)) (ys @ [t]))"
      by (simp only: window_step_def purge_dropWhile dq_append_drop [OF mle])
    also have "\<dots> = drop (max (max ?m (length ys + 1 - 50)) ?j') (ys @ [t])"
      by (rule dropWhile_drop_sorted [OF snoc.prems(2)])
    also have "max (max ?m (length ys + 1 - 50)) ?j' = max (length (ys @ [t]) - 50) ?j'"
      using jj' by (simp add: max_def)
    finally show ?thesis by simp
  qed
qed

lemma filter_fresh_sorted:
  fixes t :: int
  shows "sorted ts \<Longrightarrow> filter (\<lambda>x. t - x \<le> k) ts = dropWhile (\<lambda>x. t - x > k) ts"
proof (induction ts)
  case Nil
  then show ?case by simp
next
  case (Cons x xs)
  show ?case
  proof (cases "t - x > k")
    case True
    then show ?thesis using Cons by simp
  next
    case False
    have "\<forall>y\<in>set xs. t - y \<le> k"
    proof
      fix y assume "y \<in> set xs"
      with Cons.prems have "x \<le> y" by simp
      with False show "t - y \<le> k" by linarith
    qed
    then have "filter (\<lambda>x. t - x \<le> k) xs = xs" by simp
    with False show ?thesis by simp
  qed
qed

lemma length_dropWhile_takeWhile:
  "length (dropWhile P xs) = length xs - length (takeWhile P xs)"
proof -
  have "length (takeWhile P xs) + length (dropWhile P xs) = length xs"
    by (simp flip: length_append)
  then show ?thesis by linarith
qed

lemma window_length_sorted:
  assumes "ys \<noteq> []" "sorted ys"
  shows "length (foldl window_step [] ys)
           = min 50 (length (filter (\<lambda>x. last ys - x \<le> 15000000) ys))"
proof -
  define j where "j = length (takeWhile (\<lambda>x. last ys - x > 15000000) ys)"
  have j: "j \<le> length ys" unfolding j_def by (rule length_takeWhile_le)
  have "length (foldl window_step [] ys) = length ys - max (length ys - 50) j"
    by (simp add: window_fold_sorted [OF assms] j_def)
  also have "\<dots> = min 50 (length ys - j)" using j by arith
  also have "length ys - j = length (filter (\<lambda>x. last ys - x \<le> 15000000) ys)"
    by (simp add: filter_fresh_sorted [OF assms(2)] length_dropWhile_takeWhile j_def)
  finally show ?thesis .
qed

lemma spaced_far:
  "spaced (x # y # r) \<Longrightarrow> \<forall>z\<in>set r. z - x \<ge> 30000000"
proof (induction r arbitrary: x y)
  case Nil
  then show ?case by simp
next
  case (Cons z r)
  from Cons.prems have xy: "y - x \<ge> 15000000" and yz: "z - y \<ge> 15000000"
    and sp: "spaced (y # z # r)" by (simp_all add: seconds_def)
  have "\<forall>w\<in>set r. w - y \<ge> 30000000" using Cons.IH [OF sp] .
  with xy yz show ?case by auto
qed

lemma spaced_sorted: "spaced ts \<Longrightarrow> sorted ts"
proof (induction ts rule: spaced.induct)
  case 1
  then show ?case by simp
next
  case (2 x)
  then show ?case by simp
next
  case (3 x y r)
  from "3.prems" have xy: "y - x \<ge> 15000000" and sp: "spaced (y # r)"
    by (simp_all add: seconds_def)
  have far: "\<forall>z\<in>set r. z - x \<ge> 30000000" using spaced_far [OF "3.prems"] .
  have "sorted (y # r)" using "3.IH" sp by simp
  with xy far show ?case by auto
qed

lemma spaced_at_most_two:
  "spaced ts \<Longrightarrow> length (filter (\<lambda>x. last ts - x \<le> 15000000) ts) \<le> 2"
proof (induction ts rule: spaced.induct)
  case 1
  then show ?case by simp
next
  case (2 x)
  then show ?case by simp
next
  case (3 x y r)
  show ?case
  proof (cases "r = []")
    case True
    then show ?thesis by simp
  next
    case False
    then have "last r \<in> set r" by simp
    with spaced_far [OF "3.prems"] have "last r - x \<ge> 30000000" by blast
    then have "\<not> last (x # y # r) - x \<le> 15000000" using False by simp
    moreover have "last (x # y # r) = last (y # r)" by simp
    moreover from "3.prems" have "spaced (y # r)" by simp
    ultimately show ?thesis using "3.IH" by (simp del: last.simps)
  qed
qed

lemma window_fold_close:
  "length ts \<le> 50 \<Longrightarrow> \<forall>x\<in>set ts. \<forall>y\<in>set ts. y - x \<le> 15000000 \<Longrightarrow>
     \<exists>q. foldl window_step w ts = q @ ts"
proof (induction ts rule: rev_induct)
  case Nil
  then show ?case by simp
next
  case (snoc t ts)
  from snoc.prems have len: "length ts \<le> 50" and len': "length ts + 1 \<le> 50" by simp_all
  from snoc.prems(2) have close: "\<forall>x\<in>set ts. \<forall>y\<in>set ts. y - x \<le> 15000000" by simp
  from snoc.IH [OF len close] obtain q where q: "foldl window_step w ts = q @ ts" by blast
  have fresh: "\<not> t - hd (ts @ [t]) > 15000000"
  proof -
    have h: "hd (ts @ [t]) \<in> set (ts @ [t])" by (rule hd_in_set) simp
    have tt: "t \<in> set (ts @ [t])" by simp
    from snoc.prems(2) h tt have "t - hd (ts @ [t]) \<le> 15000000" by blast
    then show ?thesis by simp
  qed
  have n: "length (q @ ts @ [t]) - 50 \<le> length q" using len' by simp
  have "foldl window_step w (ts @ [t]) = window_step (q @ ts) t" by (simp add: q)
  also have "\<dots> = dropWhile (\<lambda>x. t - x > 15000000) (drop (length (q @ ts @ [t]) - 50) (q @ ts @ [t]))"
    by (simp add: window_step_def purge_dropWhile dq_append_def)
  also have "drop (length (q @ ts @ [t]) - 50) (q @ ts @ [t])
               = drop (length (q @ ts @ [t]) - 50) q @ hd (ts @ [t]) # tl (ts @ [t])"
    using n by simp
  also have "dropWhile (\<lambda>x. t - x > 15000000) \<dots>
               = dropWhile (\<lambda>x. t - x > 15000000) (drop (length (q @ ts @ [t]) - 50) q)
                   @ hd (ts @ [t]) # tl (ts @ [t])"
    using fresh by (rule dropWhile_append3)
  finally show ?case by simp
qed

text \<open>
  C2. An account outside the whitelist posts a sequence of invite links, starting from the
  empty state, at times that do not decrease. After the last post (its timestamp appended,
  the entries older than 15 seconds removed from the front) the threshold test is true if
  and only if at least 5 of the timestamps of the sequence lie within the 15 seconds that
  end at the last post. When successive posts are at least 15 seconds apart, the test is
  false.
\<close>

theorem invite_threshold_iff_five_in_window:
  assumes "\<not> is_whitelisted a" and "ms \<noteq> []" and "\<forall>p\<in>set ms. invite_post a (fst p)"
  shows "(sorted (map (\<lambda>p. now (snd p)) ms) \<longrightarrow>
           (is_over_threshold (run_messages init_state ms) a \<longleftrightarrow>
              5 \<le> length (filter (\<lambda>t. now (snd (last ms)) - t \<le> seconds 15)
                             (map (\<lambda>p. now (snd p)) ms))))
       \<and> (spaced (map (\<lambda>p. now (snd p)) ms) \<longrightarrow>
            \<not> is_over_threshold (run_messages init_state ms) a)"
proof -
  let ?ts = "map (\<lambda>p. now (snd p)) ms"
  have ne: "?ts \<noteq> []" using assms(2) by simp
  have lst: "last ?ts = now (snd (last ms))" using assms(2) by (simp add: last_map)
  have w: "window (run_messages init_state ms) a = foldl window_step [] ?ts"
    using run_messages_window [OF assms(1) assms(3), of init_state]
    by (simp add: window_def init_state_def)
  have iff: "is_over_threshold (run_messages init_state ms) a \<longleftrightarrow>
        5 \<le> length (filter (\<lambda>t. now (snd (last ms)) - t \<le> seconds 15) ?ts)"
    if "sorted ?ts"
    using window_length_sorted [OF ne that]
    by (simp add: is_over_threshold_def w INVITE_MAX_IN_WINDOW_def lst seconds_def)
  have "\<not> is_over_threshold (run_messages init_state ms) a" if sp: "spaced ?ts"
    using iff [OF spaced_sorted [OF sp]] spaced_at_most_two [OF sp]
    by (simp add: lst seconds_def)
  with iff show ?thesis by blast
qed

lemma sample_post_invite: "invite_post a (sample_post a i)"
  by (simp add: invite_post_def sample_post_def search_def INVITE_REGEX_def to_lower_def
      invite_class_def)

lemma not_whitelisted_42: "\<not> is_whitelisted 42"
  by (simp add: is_whitelisted_def WHITELIST_IDS_def)

theorem invite_threshold_iff_five_in_window_witness:
  "sorted (map (\<lambda>p. now (snd p)) quick_posts)
   \<and> is_over_threshold (run_messages init_state quick_posts) 42
   \<and> spaced (map (\<lambda>p. now (snd p)) slow_posts)
   \<and> \<not> is_over_threshold (run_messages init_state slow_posts) 42"
proof -
  have q1: "quick_posts \<noteq> []" and s1: "slow_posts \<noteq> []"
    by (simp_all add: quick_posts_def slow_posts_def)
  have q2: "\<forall>p\<in>set quick_posts. invite_post 42 (fst p)"
    by (simp add: quick_posts_def sample_post_invite)
  have s2: "\<forall>p\<in>set slow_posts. invite_post 42 (fst p)"
    by (simp add: slow_posts_def sample_post_invite)
  have q3: "sorted (map (\<lambda>p. now (snd p)) quick_posts)"
    by (simp add: quick_posts_def sample_env_def seconds_def)
  have s3: "spaced (map (\<lambda>p. now (snd p)) slow_posts)"
    by (simp add: slow_posts_def sample_env_def seconds_def)
  have q4: "5 \<le> length (filter (\<lambda>t. now (snd (last quick_posts)) - t \<le> seconds 15)
                          (map (\<lambda>p. now (snd p)) quick_posts))"
    by (simp add: quick_posts_def sample_env_def seconds_def)
  from invite_threshold_iff_five_in_window [OF not_whitelisted_42 q1 q2] q3 q4
  have "is_over_threshold (run_messages init_state quick_posts) 42" by blast
  moreover from invite_threshold_iff_five_in_window [OF not_whitelisted_42 s1 s2] s3
  have "\<not> is_over_threshold (run_messages init_state slow_posts) 42" by blast
  ultimately show ?thesis using q3 s3 by blast
qed

lemma record_post_step: "record_post s a t = window_step (window s a) t"
  by (simp add: record_post_def window_step_def window_def)

lemma on_message_no_exn: "snd (snd (on_message s m env)) = None"
  by (simp add: on_message_def delete_invite_eq enforce_invite_spam_eq Let_def)

lemma quick_posts_invite: "\<forall>p\<in>set quick_posts. invite_post 42 (fst p)"
  by (simp add: quick_posts_def sample_post_invite)

text \<open>
  C8. An account outside the whitelist posts 5 invite links, any two of them at most 10
  seconds apart, from any state. For each of the 5 messages the handler sends the request
  that deletes it. At the 5th post, when the member cache still holds the author, the
  handler sends a timeout request that ends exactly 1 hour after the clock read by
  \<open>try_timeout\<close>, with the reason of line 170, which contains "Invite-Spam".
\<close>

theorem five_invites_deleted_and_timed_out:
  assumes nw: "\<not> is_whitelisted a"
    and len: "length ms = 5"
    and posts: "\<forall>p\<in>set ms. invite_post a (fst p)"
    and close: "\<forall>p\<in>set ms. \<forall>q\<in>set ms. now (snd q) - now (snd p) \<le> seconds 10"
  shows "(\<forall>i<5. MessageDelete (msg_id (fst (ms ! i)))
             \<in> set (fst (snd (on_message (run_messages s (take i ms)) (fst (ms ! i)) (snd (ms ! i))))))
       \<and> (member_cached (snd (ms ! 4)) \<longrightarrow>
            MemberEdit a (utcnow (snd (ms ! 4)) + hours 1) invite_reason
             \<in> set (fst (snd (on_message (run_messages s (take 4 ms)) (fst (ms ! 4)) (snd (ms ! 4))))))
       \<and> sublist ''Invite-Spam'' invite_reason"
proof -
  let ?ts = "map (\<lambda>p. now (snd p)) ms"
  have del: "MessageDelete (msg_id (fst (ms ! i)))
       \<in> set (fst (snd (on_message (run_messages s (take i ms)) (fst (ms ! i)) (snd (ms ! i)))))"
    if "i < 5" for i
  proof -
    from that len have "ms ! i \<in> set ms" by simp
    with posts have "invite_post a (fst (ms ! i))" by blast
    from on_message_invite_post [OF this nw] show ?thesis by simp
  qed
  have m4: "ms ! 4 \<in> set ms" using len by simp
  with posts have ip4: "invite_post a (fst (ms ! 4))" by blast
  have split: "ms = take 4 ms @ [ms ! 4]"
    using take_Suc_conv_app_nth [of 4 ms] len by simp
  have posts4: "\<forall>p\<in>set (take 4 ms). invite_post a (fst p)"
    using posts by (meson in_set_takeD)
  have "record_post (run_messages s (take 4 ms)) a (now (snd (ms ! 4)))
          = window_step (foldl window_step (window s a) (map (\<lambda>p. now (snd p)) (take 4 ms)))
              (now (snd (ms ! 4)))"
    by (simp only: record_post_step run_messages_window [OF nw posts4])
  also have "\<dots> = foldl window_step (window s a) (map (\<lambda>p. now (snd p)) (take 4 ms @ [ms ! 4]))"
    by simp
  also have "\<dots> = foldl window_step (window s a) ?ts" using split by simp
  finally have rp: "record_post (run_messages s (take 4 ms)) a (now (snd (ms ! 4)))
          = foldl window_step (window s a) ?ts" .
  have "\<forall>x\<in>set ?ts. \<forall>y\<in>set ?ts. y - x \<le> 15000000"
    using close by (fastforce simp: seconds_def)
  moreover have "length ?ts \<le> 50" using len by simp
  ultimately obtain q where "foldl window_step (window s a) ?ts = q @ ?ts"
    using window_fold_close by blast
  with rp len have over: "int (length (record_post (run_messages s (take 4 ms)) a (now (snd (ms ! 4)))))
          \<ge> INVITE_MAX_IN_WINDOW"
    by (simp add: INVITE_MAX_IN_WINDOW_def)
  have edit: "MemberEdit a (utcnow (snd (ms ! 4)) + hours 1) invite_reason
       \<in> set (fst (snd (on_message (run_messages s (take 4 ms)) (fst (ms ! 4)) (snd (ms ! 4)))))"
    if "member_cached (snd (ms ! 4))"
    using that over
    by (simp add: on_message_invite_post [OF ip4 nw] enforce_invite_spam_eq TIMEOUT_DURATION_def)
  have "sublist ''Invite-Spam'' invite_reason"
    unfolding invite_reason_def by (rule prefix_imp_sublist) simp
  with del edit show ?thesis by blast
qed

theorem five_invites_deleted_and_timed_out_witness:
  "length quick_posts = 5
   \<and> member_cached (snd (quick_posts ! 4))
   \<and> MessageDelete (msg_id (fst (quick_posts ! 4)))
       \<in> set (fst (snd (on_message (run_messages init_state (take 4 quick_posts))
                         (fst (quick_posts ! 4)) (snd (quick_posts ! 4)))))
   \<and> MemberEdit 42 (utcnow (snd (quick_posts ! 4)) + hours 1) invite_reason
       \<in> set (fst (snd (on_message (run_messages init_state (take 4 quick_posts))
                         (fst (quick_posts ! 4)) (snd (quick_posts ! 4)))))"
proof -
  have len: "length quick_posts = 5" by (simp add: quick_posts_def)
  have close: "\<forall>p\<in>set quick_posts. \<forall>q\<in>set quick_posts. now (snd q) - now (snd p) \<le> seconds 10"
    by (simp add: quick_posts_def sample_env_def seconds_def)
  have cached: "member_cached (snd (quick_posts ! 4))"
    by (simp add: quick_posts_def sample_env_def)
  from five_invites_deleted_and_timed_out
         [OF not_whitelisted_42 len quick_posts_invite close, of init_state]
    len close cached
  show ?thesis by simp
qed

text \<open>
  C4. In the enforcement of lines 168--173 the timeout request comes first. When it
  succeeds, no kick follows. When it fails, whatever the exception, \<open>safe_kick\<close> runs next
  and sends the kick request if the account is still in the member cache. No exception
  leaves the enforcement or the message handler, also when the kick fails.
\<close>

theorem timeout_first_then_kick_no_exception:
  "(member_cached env \<longrightarrow>
      take 2 (fst (enforce_invite_spam g a env))
        = [GetMember g a True, MemberEdit a (utcnow env + TIMEOUT_DURATION) invite_reason])
   \<and> (member_cached env \<and> edit_result env = None \<longrightarrow>
        fst (enforce_invite_spam g a env)
          = [GetMember g a True, MemberEdit a (utcnow env + TIMEOUT_DURATION) invite_reason])
   \<and> (member_cached env \<and> edit_result env \<noteq> None \<longrightarrow>
        fst (enforce_invite_spam g a env)
          = [GetMember g a True, MemberEdit a (utcnow env + TIMEOUT_DURATION) invite_reason]
              @ fst (safe_kick g a invite_reason (m_kick env)))
   \<and> (member_cached env \<and> edit_result env \<noteq> None \<and> still_member (m_kick env) \<longrightarrow>
        fst (enforce_invite_spam g a env)
          = [GetMember g a True, MemberEdit a (utcnow env + TIMEOUT_DURATION) invite_reason,
             GetMember g a True, GuildKick g a invite_reason])
   \<and> snd (enforce_invite_spam g a env) = None
   \<and> snd (snd (on_message s m env)) = None"
  by (simp add: enforce_invite_spam_eq safe_kick_calls on_message_no_exn)

theorem timeout_first_then_kick_no_exception_witness:
  "member_cached failing_env \<and> edit_result failing_env = Some Forbidden
   \<and> kick_result (m_kick failing_env) = Some HTTPException
   \<and> still_member (m_kick failing_env)
   \<and> fst (enforce_invite_spam 7 42 failing_env)
       = [GetMember 7 42 True, MemberEdit 42 (utcnow failing_env + TIMEOUT_DURATION) invite_reason,
          GetMember 7 42 True, GuildKick 7 42 invite_reason]
   \<and> snd (enforce_invite_spam 7 42 failing_env) = None
   \<and> snd (snd (on_message init_state (sample_post 42 1) failing_env)) = None"
proof -
  have h: "member_cached failing_env" "edit_result failing_env = Some Forbidden"
    "kick_result (m_kick failing_env) = Some HTTPException" "still_member (m_kick failing_env)"
    by (simp_all add: failing_env_def)
  have h': "edit_result failing_env \<noteq> None" by (simp add: failing_env_def)
  from timeout_first_then_kick_no_exception
         [of failing_env 7 42 init_state "sample_post 42 1"] h h'
  show ?thesis by blast
qed

lemma safe_kick_eq:
  "safe_kick g a reason env =
     ((if still_member env then [GetMember g a True, GuildKick g a reason]
       else [GetMember g a False]), None)"
  by (simp add: prod_eq_iff safe_kick_calls safe_kick_no_exn)

lemma checked_from_weaken: "checked_from None cs \<Longrightarrow> checked_from p cs"
  by (cases cs) (auto simp: found_member_def split: call.splits)

lemma checked_from_append:
  "checked_from p xs \<Longrightarrow> checked_from None ys \<Longrightarrow> checked_from p (xs @ ys)"
  by (induction xs arbitrary: p) (auto simp: checked_from_weaken)

lemma membership_checked_append:
  "membership_checked xs \<Longrightarrow> membership_checked ys \<Longrightarrow> membership_checked (xs @ ys)"
  unfolding membership_checked_def by (rule checked_from_append)

lemma on_message_checked: "membership_checked (fst (snd (on_message s m env)))"
  by (simp add: on_message_def delete_invite_eq enforce_invite_spam_eq safe_kick_calls Let_def
      membership_checked_def found_member_def)

lemma find_audit_actor_eq:
  "find_audit_actor s g action tid w env =
     (s\<lparr>last_audit_lookup := (last_audit_lookup s)((g, action, tid) \<mapsto> audit_now env)\<rparr>,
      (if throttled s (g, action, tid) (audit_now env)
       then [Sleep 1, AuditLogs g 8 action (audit_now env + seconds 1)]
       else [AuditLogs g 8 action (audit_now env)]),
      Inr (case audit_response env of Inl e \<Rightarrow> None
           | Inr es \<Rightarrow> scan_entries (audit_now env) tid w es))"
proof (cases "audit_response env")
  case (Inl e)
  then show ?thesis by (cases e) (simp_all add: find_audit_actor_def Let_def)
next
  case (Inr es)
  then show ?thesis by (simp add: find_audit_actor_def Let_def)
qed

lemma kick_actor_eq:
  "kick_actor s g action tid reason env =
     (fst (find_audit_actor s g action (Some tid) 20 (a_audit env)),
      Sleep 1 # fst (snd (find_audit_actor s g action (Some tid) 20 (a_audit env))) @
        (case attributed (Some tid) (a_audit env) of
           None \<Rightarrow> []
         | Some actor \<Rightarrow>
             if is_whitelisted actor then []
             else if a_cached env then GetMember g actor True # fst (safe_kick g actor reason (a_kick env))
             else [GetMember g actor False]),
      None)"
  by (simp add: kick_actor_def find_audit_actor_eq safe_kick_eq attributed_def
      split: option.splits)

lemma on_member_join_eq:
  "on_member_join s g member b env =
     (if b then
       (fst (find_audit_actor s g bot_add (Some member) 20 (j_audit env)),
        Sleep 1 # fst (snd (find_audit_actor s g bot_add (Some member) 20 (j_audit env))) @
          (case attributed (Some member) (j_audit env) of
             None \<Rightarrow> []
           | Some actor \<Rightarrow>
               if is_whitelisted actor then []
               else fst (safe_kick g member ''Nicht-whitelisteter Bot-Invite'' (j_bot_kick env)) @
                 (if j_inviter_cached env
                  then GetMember g actor True #
                         fst (safe_kick g actor ''Bot-Invite ohne Whitelist'' (j_inviter_kick env))
                  else [GetMember g actor False])),
        None)
      else (s, [], None))"
  by (simp add: on_member_join_def find_audit_actor_eq safe_kick_eq attributed_def
      split: option.splits)

lemma find_audit_actor_checked:
  "membership_checked (fst (snd (find_audit_actor s g action tid w env)))"
  by (simp add: find_audit_actor_eq membership_checked_def)

lemma safe_kick_checked: "membership_checked (fst (safe_kick g a reason env))"
  by (simp add: safe_kick_calls membership_checked_def found_member_def)

lemma guarded_kick_checked:
  "membership_checked (GetMember g a b # fst (safe_kick g a reason env))"
  by (simp add: safe_kick_calls membership_checked_def found_member_def)

lemma membership_checked_single: "\<not> is_penalty c \<Longrightarrow> membership_checked [c]"
  by (cases c) (simp_all add: membership_checked_def)

lemma kick_actor_checked: "membership_checked (fst (snd (kick_actor s g action tid reason env)))"
proof -
  have tail: "membership_checked
     (case attributed (Some tid) (a_audit env) of
        None \<Rightarrow> []
      | Some actor \<Rightarrow>
          if is_whitelisted actor then []
          else if a_cached env then GetMember g actor True # fst (safe_kick g actor reason (a_kick env))
          else [GetMember g actor False])"
    by (simp add: guarded_kick_checked membership_checked_single split: option.splits)
      (simp add: membership_checked_def)
  have "membership_checked ([Sleep 1] @ fst (snd (find_audit_actor s g action (Some tid) 20 (a_audit env))))"
    by (rule membership_checked_append [OF membership_checked_single find_audit_actor_checked]) simp
  from membership_checked_append [OF this tail]
  show ?thesis by (simp add: kick_actor_eq)
qed

lemma on_member_join_checked:
  "membership_checked (fst (snd (on_member_join s g member b env)))"
proof (cases b)
  case False
  then show ?thesis by (simp add: on_member_join_eq membership_checked_def)
next
  case True
  have inv: "membership_checked
      (if j_inviter_cached env
       then GetMember g actor True #
              fst (safe_kick g actor ''Bot-Invite ohne Whitelist'' (j_inviter_kick env))
       else [GetMember g actor False])" for actor
    by (simp add: guarded_kick_checked membership_checked_single)
  have tail: "membership_checked
     (case attributed (Some member) (j_audit env) of
        None \<Rightarrow> []
      | Some actor \<Rightarrow>
          if is_whitelisted actor then []
          else fst (safe_kick g member ''Nicht-whitelisteter Bot-Invite'' (j_bot_kick env)) @
            (if j_inviter_cached env
             then GetMember g actor True #
                    fst (safe_kick g actor ''Bot-Invite ohne Whitelist'' (j_inviter_kick env))
             else [GetMember g actor False]))"
  proof (cases "attributed (Some member) (j_audit env)")
    case None
    then show ?thesis by (simp add: membership_checked_def)
  next
    case (Some actor)
    show ?thesis
    proof (cases "is_whitelisted actor")
      case True
      with Some show ?thesis by (simp add: membership_checked_def)
    next
      case False
      with Some membership_checked_append [OF safe_kick_checked inv [of actor]]
      show ?thesis by simp
    qed
  qed
  have "membership_checked ([Sleep 1] @ fst (snd (find_audit_actor s g bot_add (Some member) 20 (j_audit env))))"
    by (rule membership_checked_append [OF membership_checked_single find_audit_actor_checked]) simp
  from membership_checked_append [OF this tail] True
  show ?thesis by (simp add: on_member_join_eq)
qed


lemma no_penalty_checked_from: "\<forall>c\<in>set cs. \<not> is_penalty c \<Longrightarrow> checked_from p cs"
  by (induction cs arbitrary: p) (auto split: call.splits)

lemma no_penalty_checked: "\<forall>c\<in>set cs. \<not> is_penalty c \<Longrightarrow> membership_checked cs"
  unfolding membership_checked_def by (rule no_penalty_checked_from)

lemma webhook_handlers_eq: "webhook_handlers e = None"
  by (cases e) (simp_all add: webhook_handlers_def)

lemma wh_delete_eq:
  "wh_delete w env = ([WebhookDelete w ''Webhook von nicht-whitelistetem Nutzer''], None)"
  by (simp add: wh_delete_def webhook_handlers_eq split: option.splits)

lemma delete_webhook_no_exn: "snd (delete_webhook tid env) = None"
  by (simp add: delete_webhook_def wh_delete_eq webhook_handlers_eq
      split: sum.splits option.splits prod.splits)

lemma delete_webhook_no_penalty: "\<forall>c\<in>set (fst (delete_webhook tid env)). \<not> is_penalty c"
  by (simp add: delete_webhook_def wh_delete_eq webhook_handlers_eq
      split: sum.splits option.splits prod.splits)

lemma get_set_attempts: "get_attempts (set_attempts s a c) a = c"
  by (simp add: get_attempts_def set_attempts_def)

lemma set_set_attempts: "set_attempts (set_attempts s a c) a d = set_attempts s a d"
  by (simp add: set_attempts_def)

lemma count_violation_eq:
  "count_violation s g a env =
     (if get_attempts s a + 1 \<ge> WEBHOOK_MAX_ATTEMPTS
      then (set_attempts s a 0,
            GetMember g a (wh_member_cached env) #
              (if wh_member_cached env then fst (safe_kick g a webhook_kick_reason (wh_kick env))
               else []),
            None)
      else (set_attempts s a (get_attempts s a + 1), [], None))"
  by (simp add: count_violation_def Let_def get_set_attempts set_set_attempts safe_kick_eq)

lemma count_violation_checked: "membership_checked (fst (snd (count_violation s g a env)))"
  by (simp add: count_violation_eq guarded_kick_checked membership_checked_single)
    (simp add: membership_checked_def)

lemma webhook_entry_eq:
  "webhook_entry s g entry env =
     (if is_stale (wh_now env) 30 entry then (s, [], None)
      else case (user entry, target entry) of
        (Some actor, Some tid) \<Rightarrow>
          if is_whitelisted actor then (s, [], None)
          else (fst (count_violation s g actor env),
                fst (delete_webhook tid env) @ fst (snd (count_violation s g actor env)),
                None)
      | _ \<Rightarrow> (s, [], None))"
proof -
  have st: "(case created_at entry of None \<Rightarrow> False
             | Some c \<Rightarrow> total_seconds (wh_now env - c) > 30) = is_stale (wh_now env) 30 entry"
    by (simp add: is_stale_def total_seconds_gt_30 seconds_def split: option.splits)
  have cv: "snd (snd (count_violation s g actor env)) = None" for actor
    by (simp add: count_violation_eq)
  show ?thesis
    unfolding webhook_entry_def st
    by (simp add: case_prod_unfold delete_webhook_no_exn cv split: option.splits)
qed

lemma webhook_entry_checked: "membership_checked (fst (snd (webhook_entry s g entry env)))"
proof -
  have "membership_checked (fst (delete_webhook tid env) @ fst (snd (count_violation s g actor env)))"
    for tid actor
    by (rule membership_checked_append
          [OF no_penalty_checked [OF delete_webhook_no_penalty] count_violation_checked])
  then show ?thesis
    by (simp add: webhook_entry_eq split: option.splits) (simp add: membership_checked_def)
qed

lemma webhook_entry_no_exn: "snd (snd (webhook_entry s g entry env)) = None"
  by (simp add: webhook_entry_eq split: option.splits)

lemma webhook_loop_no_exn: "snd (snd (webhook_loop s g es)) = None"
proof (induction es arbitrary: s)
  case Nil
  then show ?case by simp
next
  case (Cons p es)
  obtain entry env where p: "p = (entry, env)" by (cases p)
  show ?case
    by (simp add: p case_prod_unfold webhook_entry_no_exn Cons.IH)
qed

lemma webhook_loop_checked: "membership_checked (fst (snd (webhook_loop s g es)))"
proof (induction es arbitrary: s)
  case Nil
  then show ?case by (simp add: membership_checked_def)
next
  case (Cons p es)
  obtain entry env where p: "p = (entry, env)" by (cases p)
  have "fst (snd (webhook_loop s g (p # es)))
          = fst (snd (webhook_entry s g entry env))
              @ fst (snd (webhook_loop (fst (webhook_entry s g entry env)) g es))"
    by (simp add: p case_prod_unfold webhook_entry_no_exn)
  with membership_checked_append [OF webhook_entry_checked Cons.IH]
  show ?case by simp
qed

lemma on_webhooks_update_eq:
  "on_webhooks_update s g t resp =
     (case resp of
        Inl e \<Rightarrow> (s, [Sleep 1, AuditLogs g 6 webhook_create t], None)
      | Inr es \<Rightarrow>
          (fst (webhook_loop s g es),
           Sleep 1 # AuditLogs g 6 webhook_create t # fst (snd (webhook_loop s g es)), None))"
  by (simp add: on_webhooks_update_def case_prod_unfold webhook_loop_no_exn webhook_handlers_eq
      split: sum.splits)

lemma on_webhooks_update_checked:
  "membership_checked (fst (snd (on_webhooks_update s g t resp)))"
proof (cases resp)
  case (Inl e)
  then show ?thesis by (simp add: on_webhooks_update_eq membership_checked_def)
next
  case (Inr es)
  have "membership_checked ([Sleep 1, AuditLogs g 6 webhook_create t] @ fst (snd (webhook_loop s g es)))"
    by (rule membership_checked_append [OF _ webhook_loop_checked])
      (simp add: membership_checked_def)
  with Inr show ?thesis by (simp add: on_webhooks_update_eq)
qed

text \<open>
  C3. In every handler, each kick request and each timeout request comes directly after a
  read of the guild's member cache that found the target account: \<open>safe_kick\<close> reads the
  cache itself before \<^verbatim>\<open>guild.kick\<close>, and the message handler reads it at line 168,
  directly before \<open>try_timeout\<close>. No kick and no timeout is sent for an account the cache
  does not hold.
\<close>

theorem kick_and_timeout_only_after_member_check:
  "membership_checked (fst (snd (on_message s m menv)))
   \<and> membership_checked (fst (snd (on_member_join s g member b jenv)))
   \<and> membership_checked (fst (snd (on_guild_channel_delete s g tid aenv)))
   \<and> membership_checked (fst (snd (on_guild_role_delete s g tid aenv)))
   \<and> membership_checked (fst (snd (on_member_ban s g tid aenv)))
   \<and> membership_checked (fst (snd (on_member_remove s g tid aenv)))
   \<and> membership_checked (fst (snd (on_webhooks_update s g t resp)))
   \<and> membership_checked (fst (safe_kick g a reason kenv))"
  by (simp add: on_message_checked on_member_join_checked kick_actor_checked
      on_guild_channel_delete_def on_guild_role_delete_def on_member_ban_def
      on_member_remove_def on_webhooks_update_checked safe_kick_checked)

theorem kick_and_timeout_only_after_member_check_witness:
  "fst (snd (on_member_ban init_state 7 5 untrusted_actor_env))
     = [Sleep 1, AuditLogs 7 8 ban (seconds 25), GetMember 7 42 True, GetMember 7 42 True,
        GuildKick 7 42 ''Ban ohne Whitelist'']
   \<and> membership_checked (fst (snd (on_member_ban init_state 7 5 untrusted_actor_env)))"
proof -
  have "fst (snd (on_member_ban init_state 7 5 untrusted_actor_env))
     = [Sleep 1, AuditLogs 7 8 ban (seconds 25), GetMember 7 42 True, GetMember 7 42 True,
        GuildKick 7 42 ''Ban ohne Whitelist'']"
    by (simp add: on_member_ban_def kick_actor_eq find_audit_actor_eq attributed_def
        untrusted_actor_env_def stale_entry_def fresh_entry_def sample_kick_env_def
        throttled_def init_state_def seconds_def safe_kick_calls not_whitelisted_42
        total_seconds_gt_iff [of 20, simplified])
  moreover from kick_and_timeout_only_after_member_check
                  [of init_state _ _ 7 _ _ _ 5 untrusted_actor_env]
  have "membership_checked (fst (snd (on_member_ban init_state 7 5 untrusted_actor_env)))"
    by blast
  ultimately show ?thesis by blast
qed

lemma unguarded_rejected:
  "\<not> membership_checked [GuildKick g a r]"
  "\<not> membership_checked [GetMember g a False, GuildKick g a r]"
  "\<not> membership_checked [GetMember g a True, Sleep 1, MemberEdit a u r]"
  by (simp_all add: membership_checked_def found_member_def)

lemma on_message_whitelisted:
  "is_whitelisted (author_id m) \<Longrightarrow>
     on_message s m env =
       (s, (if \<not> author_bot m \<and> guild m \<noteq> None \<and> search INVITE_REGEX (content m)
            then [MessageDelete (msg_id m)] else []), None)"
  by (simp add: on_message_def delete_invite_eq)

lemma find_audit_actor_result:
  "snd (snd (find_audit_actor s g action tid 20 env)) = Inr (attributed tid env)"
  by (simp add: find_audit_actor_eq attributed_def)

lemma find_audit_actor_no_enforcement:
  "filter is_enforcement (fst (snd (find_audit_actor s g action tid w env))) = []"
  by (simp add: find_audit_actor_eq)

text \<open>
  C1, as amended. A whitelisted author of a message gets no timeout and no kick, and the
  handler leaves the state as it found it (the deletion of an invite link is not part of
  this: it comes before the whitelist test). When the actor that the audit lookup
  attributes is whitelisted, the handlers of deleted channels and roles, bans, removed
  members and joined bots send no delete, timeout or kick request, and the webhook handler
  passes over the record without any call or change of state.
\<close>

theorem whitelisted_account_never_penalised:
  "(is_whitelisted (author_id m) \<longrightarrow>
      fst (on_message s m menv) = s
      \<and> filter is_penalty (fst (snd (on_message s m menv))) = [])
   \<and> (snd (snd (find_audit_actor s g action (Some tid) 20 (a_audit aenv))) = Inr (Some actor)
        \<and> is_whitelisted actor \<longrightarrow>
        filter is_enforcement (fst (snd (kick_actor s g action tid reason aenv))) = [])
   \<and> (snd (snd (find_audit_actor s g bot_add (Some member) 20 (j_audit jenv))) = Inr (Some actor)
        \<and> is_whitelisted actor \<longrightarrow>
        filter is_enforcement (fst (snd (on_member_join s g member b jenv))) = [])
   \<and> (user entry = Some actor \<and> is_whitelisted actor \<longrightarrow>
        webhook_entry s g entry wenv = (s, [], None))"
  by (simp add: on_message_whitelisted find_audit_actor_result kick_actor_eq on_member_join_eq
      find_audit_actor_no_enforcement webhook_entry_eq split: option.splits)

lemma whitelisted_sample: "is_whitelisted 662596869221908480"
  by (simp add: is_whitelisted_def WHITELIST_IDS_def)

theorem whitelisted_account_never_penalised_witness:
  "is_whitelisted trusted_id
   \<and> author_id (sample_post trusted_id 1) = trusted_id
   \<and> fst (on_message init_state (sample_post trusted_id 1) (sample_env 0)) = init_state
   \<and> filter is_penalty
         (fst (snd (on_message init_state (sample_post trusted_id 1) (sample_env 0)))) = []
   \<and> snd (snd (find_audit_actor init_state 7 ban (Some 5) 20 (a_audit trusted_actor_env)))
        = Inr (Some trusted_id)
   \<and> filter is_enforcement
         (fst (snd (kick_actor init_state 7 ban 5 ''Ban ohne Whitelist'' trusted_actor_env))) = []
   \<and> snd (snd (find_audit_actor init_state 7 bot_add (Some 5) 20 (j_audit trusted_join_env)))
        = Inr (Some trusted_id)
   \<and> filter is_enforcement
         (fst (snd (on_member_join init_state 7 5 True trusted_join_env))) = []
   \<and> user trusted_entry = Some trusted_id
   \<and> webhook_entry init_state 7 trusted_entry lost_hook_env = (init_state, [], None)"
proof -
  have w: "is_whitelisted trusted_id" using whitelisted_sample by (simp add: trusted_id_def)
  have a: "author_id (sample_post trusted_id 1) = trusted_id" by (simp add: sample_post_def)
  have f1: "snd (snd (find_audit_actor init_state 7 ban (Some 5) 20 (a_audit trusted_actor_env)))
        = Inr (Some trusted_id)"
    by (simp add: find_audit_actor_eq trusted_actor_env_def trusted_entry_def seconds_def
        total_seconds_gt_iff [of 20, simplified])
  have f2: "snd (snd (find_audit_actor init_state 7 bot_add (Some 5) 20 (j_audit trusted_join_env)))
        = Inr (Some trusted_id)"
    by (simp add: find_audit_actor_eq trusted_join_env_def trusted_entry_def seconds_def
        total_seconds_gt_iff [of 20, simplified])
  have u: "user trusted_entry = Some trusted_id" by (simp add: trusted_entry_def)
  from whitelisted_account_never_penalised
         [of "sample_post trusted_id 1" init_state "sample_env 0" 7 ban 5 trusted_actor_env
             trusted_id "''Ban ohne Whitelist''" 5 trusted_join_env True trusted_entry
             lost_hook_env]
       w a f1 f2 u
  show ?thesis by simp
qed

text \<open>
  C1, as stated, fails: the invite link of a whitelisted author is deleted, since the
  deletion of lines 148--155 comes before the whitelist test of line 158.
\<close>

theorem whitelisted_invite_post_is_deleted:
  "is_whitelisted 662596869221908480
   \<and> fst (snd (on_message init_state (sample_post 662596869221908480 1) (sample_env 0)))
       = [MessageDelete 1]
   \<and> is_enforcement (MessageDelete 1)"
proof -
  have "invite_post 662596869221908480 (sample_post 662596869221908480 1)"
    by (rule sample_post_invite)
  then have "\<not> author_bot (sample_post 662596869221908480 1)
      \<and> guild (sample_post 662596869221908480 1) \<noteq> None
      \<and> search INVITE_REGEX (content (sample_post 662596869221908480 1))"
    by (simp add: invite_post_def)
  moreover have "author_id (sample_post 662596869221908480 1) = 662596869221908480"
    and "msg_id (sample_post 662596869221908480 1) = 1"
    by (simp_all add: sample_post_def)
  ultimately show ?thesis
    using whitelisted_sample by (simp add: on_message_whitelisted)
qed

lemma scan_entries_find:
  "scan_entries t tid w es =
     (case find (\<lambda>e. \<not> is_stale t w e \<and> fits_target tid e) es of
        None \<Rightarrow> None | Some e \<Rightarrow> user e)"
  by (induction es)
    (auto simp: is_stale_def fits_target_def total_seconds_gt_iff seconds_def
      split: option.splits)

text \<open>
  C5. The actor that the audit attribution returns is the actor of the first record, in
  the order of the directory, that is not stale and fits the target: a record older than
  \<open>within_seconds\<close> is passed over even when its target is the one asked for. When
  every record is stale, and when the directory call fails, the result is \<open>None\<close>.
\<close>

theorem stale_audit_record_never_attributed:
  "(audit_response env = Inr es \<longrightarrow>
      snd (snd (find_audit_actor s g action tid w env))
        = Inr (case find (\<lambda>e. \<not> is_stale (audit_now env) w e \<and> fits_target tid e) es of
                 None \<Rightarrow> None | Some e \<Rightarrow> user e))
   \<and> (audit_response env = Inr es \<and> (\<forall>e\<in>set es. is_stale (audit_now env) w e) \<longrightarrow>
        snd (snd (find_audit_actor s g action tid w env)) = Inr None)
   \<and> (audit_response env = Inl x \<longrightarrow>
        snd (snd (find_audit_actor s g action tid w env)) = Inr None)"
proof -
  have "find (\<lambda>e. \<not> is_stale (audit_now env) w e \<and> fits_target tid e) es = None"
    if "\<forall>e\<in>set es. is_stale (audit_now env) w e"
    using that by (simp add: find_None_iff)
  then show ?thesis
    by (simp add: find_audit_actor_eq scan_entries_find)
qed

theorem stale_audit_record_never_attributed_witness:
  "is_stale (seconds 25) 20 stale_entry \<and> fits_target (Some 5) stale_entry
   \<and> snd (snd (find_audit_actor init_state 7 kick (Some 5) 20
         \<lparr>audit_now = seconds 25, audit_response = Inr [stale_entry, fresh_entry]\<rparr>))
       = Inr (Some 42)
   \<and> snd (snd (find_audit_actor init_state 7 kick (Some 5) 20
         \<lparr>audit_now = seconds 25, audit_response = Inr [stale_entry]\<rparr>))
       = Inr None
   \<and> snd (snd (find_audit_actor init_state 7 kick (Some 5) 20
         \<lparr>audit_now = seconds 25, audit_response = Inl Forbidden\<rparr>))
       = Inr None"
  using stale_audit_record_never_attributed
          [of "\<lparr>audit_now = seconds 25, audit_response = Inr [stale_entry, fresh_entry]\<rparr>"
              "[stale_entry, fresh_entry]" init_state 7 kick "Some 5" 20]
        stale_audit_record_never_attributed
          [of "\<lparr>audit_now = seconds 25, audit_response = Inr [stale_entry]\<rparr>"
              "[stale_entry]" init_state 7 kick "Some 5" 20]
        stale_audit_record_never_attributed
          [of "\<lparr>audit_now = seconds 25, audit_response = Inl Forbidden\<rparr>"
              "[]" init_state 7 kick "Some 5" 20 Forbidden]
  by (simp add: is_stale_def fits_target_def stale_entry_def fresh_entry_def seconds_def)

text \<open>
  C6. For an account whose counter is 0: the first and the second violation bring the
  counter to 1 and 2 and cause no call; the third reaches the threshold of 3, the handler
  reads the member cache and, the account found, runs \<open>safe_kick\<close>, which sends the kick
  when the account is still a member; the counter is then 0, and the fourth violation
  brings it to 1.
\<close>

theorem webhook_counter_three_then_reset:
  assumes "get_attempts s a = 0"
  shows "get_attempts (violations s g a [e1]) a = 1 \<and> \<not> should_kick 1
       \<and> fst (snd (count_violation s g a e1)) = []
       \<and> get_attempts (violations s g a [e1, e2]) a = 2 \<and> \<not> should_kick 2
       \<and> fst (snd (count_violation (violations s g a [e1]) g a e2)) = []
       \<and> should_kick 3
       \<and> fst (snd (count_violation (violations s g a [e1, e2]) g a e3))
           = GetMember g a (wh_member_cached e3) #
               (if wh_member_cached e3
                then fst (safe_kick g a webhook_kick_reason (wh_kick e3)) else [])
       \<and> (wh_member_cached e3 \<and> still_member (wh_kick e3) \<longrightarrow>
            GuildKick g a webhook_kick_reason
              \<in> set (fst (snd (count_violation (violations s g a [e1, e2]) g a e3))))
       \<and> get_attempts (violations s g a [e1, e2, e3]) a = 0
       \<and> get_attempts (violations s g a [e1, e2, e3, e4]) a = 1"
  using assms
  by (simp add: violations_def count_violation_eq get_set_attempts should_kick_def
      WEBHOOK_MAX_ATTEMPTS_def safe_kick_calls)

theorem webhook_counter_three_then_reset_witness:
  "get_attempts init_state 42 = 0
   \<and> get_attempts (violations init_state 7 42 [lost_hook_env, failed_delete_env]) 42 = 2
   \<and> wh_member_cached lost_hook_env \<and> still_member (wh_kick lost_hook_env)
   \<and> GuildKick 7 42 webhook_kick_reason
        \<in> set (fst (snd (count_violation
                 (violations init_state 7 42 [lost_hook_env, failed_delete_env]) 7 42
                 lost_hook_env)))
   \<and> get_attempts
        (violations init_state 7 42 [lost_hook_env, failed_delete_env, lost_hook_env]) 42 = 0
   \<and> get_attempts
        (violations init_state 7 42
           [lost_hook_env, failed_delete_env, lost_hook_env, failed_delete_env]) 42 = 1"
proof -
  have z: "get_attempts init_state 42 = 0" by (simp add: get_attempts_def init_state_def)
  have c: "wh_member_cached lost_hook_env" "still_member (wh_kick lost_hook_env)"
    by (simp_all add: lost_hook_env_def sample_kick_env_def)
  from webhook_counter_three_then_reset
         [OF z, of 7 lost_hook_env failed_delete_env lost_hook_env failed_delete_env] z c
  show ?thesis by blast
qed

text \<open>
  C10. For a fresh webhook-create record with an actor outside the whitelist and a
  target, the counter of the actor is advanced exactly as \<open>count_violation\<close> does it,
  whatever the listing of the webhooks and the deletion answer: the new state does not
  depend on them, the escalation at the threshold takes place, and no exception leaves the
  handling of the record.
\<close>

theorem webhook_violation_counted_despite_delete_failure:
  assumes "\<not> is_stale (wh_now env) 30 entry" and "user entry = Some a"
    and "target entry = Some w" and "\<not> is_whitelisted a"
  shows "fst (webhook_entry s g entry env) = fst (count_violation s g a env)
       \<and> get_attempts (fst (webhook_entry s g entry env)) a
           = (if get_attempts s a + 1 \<ge> WEBHOOK_MAX_ATTEMPTS then 0 else get_attempts s a + 1)
       \<and> (get_attempts s a + 1 \<ge> WEBHOOK_MAX_ATTEMPTS \<longrightarrow>
            GetMember g a (wh_member_cached env) \<in> set (fst (snd (webhook_entry s g entry env))))
       \<and> (get_attempts s a + 1 \<ge> WEBHOOK_MAX_ATTEMPTS \<and> wh_member_cached env
            \<and> still_member (wh_kick env) \<longrightarrow>
            GuildKick g a webhook_kick_reason \<in> set (fst (snd (webhook_entry s g entry env))))
       \<and> fst (webhook_entry s g entry
                 (env\<lparr>channel_hooks := h, guild_hooks := gh, wh_delete_result := d\<rparr>))
           = fst (webhook_entry s g entry env)
       \<and> snd (snd (webhook_entry s g entry env)) = None"
  using assms
  by (simp add: webhook_entry_eq count_violation_eq get_set_attempts safe_kick_calls)

theorem webhook_violation_counted_despite_delete_failure_witness:
  "\<not> is_stale (wh_now lost_hook_env) 30 fresh_entry
   \<and> \<not> is_stale (wh_now failed_delete_env) 30 fresh_entry
   \<and> get_attempts (fst (webhook_entry init_state 7 fresh_entry lost_hook_env)) 42 = 1
   \<and> get_attempts (fst (webhook_entry init_state 7 fresh_entry failed_delete_env)) 42 = 1
   \<and> snd (snd (webhook_entry init_state 7 fresh_entry failed_delete_env)) = None"
proof -
  have f1: "\<not> is_stale (wh_now lost_hook_env) 30 fresh_entry"
    and f2: "\<not> is_stale (wh_now failed_delete_env) 30 fresh_entry"
    by (simp_all add: is_stale_def fresh_entry_def lost_hook_env_def failed_delete_env_def
        seconds_def)
  have u: "user fresh_entry = Some 42" and t: "target fresh_entry = Some 5"
    by (simp_all add: fresh_entry_def)
  have z: "get_attempts init_state 42 = 0" by (simp add: get_attempts_def init_state_def)
  note A = webhook_violation_counted_despite_delete_failure
             [OF f1 u t not_whitelisted_42,
              where s = init_state and g = 7 and h = "Inr []" and gh = "[]" and d = None]
  note B = webhook_violation_counted_despite_delete_failure
             [OF f2 u t not_whitelisted_42,
              where s = init_state and g = 7 and h = "Inr []" and gh = "[]" and d = None]
  from A [THEN conjunct2, THEN conjunct1] z
  have a1: "get_attempts (fst (webhook_entry init_state 7 fresh_entry lost_hook_env)) 42 = 1"
    by (simp add: WEBHOOK_MAX_ATTEMPTS_def)
  from B [THEN conjunct2, THEN conjunct1] z
  have b1: "get_attempts (fst (webhook_entry init_state 7 fresh_entry failed_delete_env)) 42 = 1"
    by (simp add: WEBHOOK_MAX_ATTEMPTS_def)
  from B have b2: "snd (snd (webhook_entry init_state 7 fresh_entry failed_delete_env)) = None"
    by blast
  from f1 f2 a1 b1 b2 show ?thesis by blast
qed

text \<open>
  C7. Three lookups for one key enter \<open>find_audit_actor\<close> at 0 s, 0.5 s and 1.6 s. The
  second sleeps and sends its query at 1.5 s, but line 114 stores the time of entry,
  0.5 s; the third therefore does not sleep and sends its query at 1.6 s, a tenth of a
  second after the second.
\<close>

theorem audit_throttle_gap_below_one_second:
  "fst (snd (find_audit_actor init_state 7 kick (Some 5) 20
               \<lparr>audit_now = 0, audit_response = Inr []\<rparr>))
     = [AuditLogs 7 8 kick 0]
   \<and> fst (snd (find_audit_actor
        (fst (find_audit_actor init_state 7 kick (Some 5) 20
               \<lparr>audit_now = 0, audit_response = Inr []\<rparr>))
        7 kick (Some 5) 20 \<lparr>audit_now = 500000, audit_response = Inr []\<rparr>))
     = [Sleep 1, AuditLogs 7 8 kick 1500000]
   \<and> fst (snd (find_audit_actor
        (fst (find_audit_actor
          (fst (find_audit_actor init_state 7 kick (Some 5) 20
                 \<lparr>audit_now = 0, audit_response = Inr []\<rparr>))
          7 kick (Some 5) 20 \<lparr>audit_now = 500000, audit_response = Inr []\<rparr>))
        7 kick (Some 5) 20 \<lparr>audit_now = 1600000, audit_response = Inr []\<rparr>))
     = [AuditLogs 7 8 kick 1600000]
   \<and> (1600000 :: int) - 1500000 < seconds 1"
  by (simp add: find_audit_actor_eq throttled_def init_state_def total_seconds_lt_1 seconds_def)

text \<open>
  C9. A message whose author is a bot account, or that has no guild, makes the message
  handler do nothing: it issues no call at all, raises nothing and returns the state as it
  found it.
\<close>

theorem on_message_ignores_bots_and_dms:
  "author_bot m \<or> guild m = None \<Longrightarrow> on_message s m env = (s, [], None)"
  by (simp add: on_message_def)

theorem on_message_ignores_bots_and_dms_witness:
  "(author_bot \<lparr>msg_id = 1, author_id = 42, author_bot = True, guild = Some 7,
                content = ''discord.gg/abc''\<rparr>
      \<or> guild \<lparr>msg_id = 1, author_id = 42, author_bot = True, guild = Some 7,
                content = ''discord.gg/abc''\<rparr> = None)
   \<and> on_message init_state
        \<lparr>msg_id = 1, author_id = 42, author_bot = True, guild = Some 7,
         content = ''discord.gg/abc''\<rparr>
        \<lparr>delete_result = None, now = 0, member_cached = True, utcnow = 0,
         edit_result = None, m_kick = \<lparr>still_member = True, kick_result = None\<rparr>\<rparr>
     = (init_state, [], None)"
  using on_message_ignores_bots_and_dms
    [of "\<lparr>msg_id = 1, author_id = 42, author_bot = True, guild = Some 7,
          content = ''discord.gg/abc''\<rparr>" init_state
        "\<lparr>delete_result = None, now = 0, member_cached = True, utcnow = 0,
          edit_result = None, m_kick = \<lparr>still_member = True, kick_result = None\<rparr>\<rparr>"]
  by simp

end
